theory Spec2Isabelle
  imports Complex_Main "HOL-Library.Word"
begin

unbundle bit_operations_syntax

section \<open>Brother P-Touch P700 driver: data model\<close>

text \<open>
  A shallow embedding of \<^verbatim>\<open>labelprinterkit/printers/brother_pt700.py\<close>.
  Python \<^verbatim>\<open>bytes\<close> are lists of 8-bit words, Python integers are \<open>int\<close>,
  and every exception the driver can raise is a value of \<open>error\<close>.
\<close>

type_synonym byte = "8 word"
type_synonym bytes = "byte list"

datatype error =
    TypeError
  | ValueError string
  | OverflowError
  | StructError
  | IndexError
  | KeyError
  | IOError string
  | DecodeError

subsection \<open>Enumerations and lookup tables\<close>

datatype INFO_OFFSETS =
    PRINTHEAD_MARK | MODEL_CODE | ERROR_1 | ERROR_2 | MEDIA_WIDTH | MEDIA_TYPE | MODE
  | MEDIA_LENGTH | STATUS_TYPE | PHASE_TYPE | PHASE_NUMBER_HI | PHASE_NUMBER_LO
  | NOTIFY_NO | HARDWARE_SETTINGS

text \<open>The value of each member of the \<^verbatim>\<open>IntEnum\<close>.\<close>

fun INFO_OFFSETS_value :: "INFO_OFFSETS \<Rightarrow> nat" where
  "INFO_OFFSETS_value PRINTHEAD_MARK = 0"
| "INFO_OFFSETS_value MODEL_CODE = 4"
| "INFO_OFFSETS_value ERROR_1 = 8"
| "INFO_OFFSETS_value ERROR_2 = 9"
| "INFO_OFFSETS_value MEDIA_WIDTH = 10"
| "INFO_OFFSETS_value MEDIA_TYPE = 11"
| "INFO_OFFSETS_value MODE = 15"
| "INFO_OFFSETS_value MEDIA_LENGTH = 17"
| "INFO_OFFSETS_value STATUS_TYPE = 18"
| "INFO_OFFSETS_value PHASE_TYPE = 19"
| "INFO_OFFSETS_value PHASE_NUMBER_HI = 20"
| "INFO_OFFSETS_value PHASE_NUMBER_LO = 21"
| "INFO_OFFSETS_value NOTIFY_NO = 22"
| "INFO_OFFSETS_value HARDWARE_SETTINGS = 26"

text \<open>Iterating over the enumeration visits the members in definition order.\<close>

definition INFO_OFFSETS_members :: "INFO_OFFSETS list" where
  "INFO_OFFSETS_members =
     [PRINTHEAD_MARK, MODEL_CODE, ERROR_1, ERROR_2, MEDIA_WIDTH, MEDIA_TYPE, MODE,
      MEDIA_LENGTH, STATUS_TYPE, PHASE_TYPE, PHASE_NUMBER_HI, PHASE_NUMBER_LO,
      NOTIFY_NO, HARDWARE_SETTINGS]"

datatype ERRORS =
    NO_MEDIA | CUTTER_JAM | WEAK_BATTERY | HV_ADAPTER | REPLACE_MEDIA | COVER_OPEN
  | OVERHEATING | UNKNOWN

record TapeInfo =
  lmargin :: "int option"
  printarea :: "int option"
  rmargin :: "int option"
  width :: "real option"

definition mk_TapeInfo :: "int option \<Rightarrow> int option \<Rightarrow> int option \<Rightarrow> real option \<Rightarrow> TapeInfo" where
  "mk_TapeInfo l p r w = \<lparr>lmargin = l, printarea = p, rmargin = r, width = w\<rparr>"

text \<open>The dictionary from media id to tape geometry, as an association list.\<close>

definition MEDIA_WIDTH_INFO :: "(int \<times> TapeInfo) list" where
  "MEDIA_WIDTH_INFO =
     [(0, mk_TapeInfo None None None None),
      (4, mk_TapeInfo (Some 52) (Some 24) (Some 52) (Some 3.5)),
      (6, mk_TapeInfo (Some 48) (Some 32) (Some 48) (Some 6.0)),
      (9, mk_TapeInfo (Some 39) (Some 50) (Some 39) (Some 9.0)),
      (12, mk_TapeInfo (Some 29) (Some 70) (Some 29) (Some 12.0)),
      (18, mk_TapeInfo (Some 8) (Some 112) (Some 8) (Some 18.0)),
      (24, mk_TapeInfo (Some 0) (Some 128) (Some 0) (Some 24.0))]"

definition ERROR_MASK :: "(nat \<times> ERRORS) list" where
  "ERROR_MASK =
     [(0, NO_MEDIA), (2, CUTTER_JAM), (3, WEAK_BATTERY), (6, HV_ADAPTER),
      (8, REPLACE_MEDIA), (12, COVER_OPEN), (13, OVERHEATING)]"

text \<open>Subscripting a dictionary raises \<^verbatim>\<open>KeyError\<close> on a missing key.\<close>

definition dict_getitem :: "('k \<times> 'v) list \<Rightarrow> 'k \<Rightarrow> error + 'v" where
  "dict_getitem d k = (case map_of d k of None \<Rightarrow> Inl KeyError | Some v \<Rightarrow> Inr v)"

text \<open>Subscripting a byte string yields an integer, or raises \<^verbatim>\<open>IndexError\<close>.\<close>

definition bytes_getitem :: "bytes \<Rightarrow> nat \<Rightarrow> error + int" where
  "bytes_getitem msg i = (if i < length msg then Inr (uint (msg ! i)) else Inl IndexError)"

subsection \<open>Errors\<close>

record Errors =
  errors_data :: "(ERRORS \<times> bool) list"

text \<open>
  \<^verbatim>\<open>value = byte1 | (byte2 << 8)\<close>, then one entry per item of \<^verbatim>\<open>ERROR_MASK\<close>
  holding \<^verbatim>\<open>bool(value & 1 << offset)\<close>.
\<close>

definition Errors_value :: "int \<Rightarrow> int \<Rightarrow> int" where
  "Errors_value byte1 byte2 = byte1 OR push_bit 8 byte2"

definition Errors_init :: "int \<Rightarrow> int \<Rightarrow> Errors" where
  "Errors_init byte1 byte2 =
     (let val = Errors_value byte1 byte2
      in \<lparr>errors_data =
            map (\<lambda>(offset, err). (err, val AND push_bit offset 1 \<noteq> 0)) ERROR_MASK\<rparr>)"

definition Errors_any :: "Errors \<Rightarrow> bool" where
  "Errors_any e = list_ex snd (errors_data e)"

definition Errors_getattr :: "Errors \<Rightarrow> ERRORS \<Rightarrow> error + bool" where
  "Errors_getattr e attr = dict_getitem (errors_data e) attr"

subsection \<open>Status\<close>

record Status =
  data :: "(INFO_OFFSETS \<times> int) list"
  errors :: Errors
  tape_info :: TapeInfo

text \<open>
  The dictionary comprehension \<^verbatim>\<open>{i.name.lower(): msg[i.value] for i in INFO_OFFSETS}\<close>:
  the first offset outside the message raises.
\<close>

fun Status_data :: "bytes \<Rightarrow> INFO_OFFSETS list \<Rightarrow> error + (INFO_OFFSETS \<times> int) list" where
  "Status_data msg [] = Inr []"
| "Status_data msg (i # rest) =
     (case bytes_getitem msg (INFO_OFFSETS_value i) of
        Inl e \<Rightarrow> Inl e
      | Inr v \<Rightarrow> (case Status_data msg rest of
                    Inl e \<Rightarrow> Inl e
                  | Inr d \<Rightarrow> Inr ((i, v) # d)))"

definition Status_init :: "bytes \<Rightarrow> error + Status" where
  "Status_init msg =
     (case Status_data msg INFO_OFFSETS_members of
        Inl e \<Rightarrow> Inl e
      | Inr d \<Rightarrow>
          (case dict_getitem d ERROR_1 of
             Inl e \<Rightarrow> Inl e
           | Inr error_1 \<Rightarrow>
               (case dict_getitem d ERROR_2 of
                  Inl e \<Rightarrow> Inl e
                | Inr error_2 \<Rightarrow>
                    (case dict_getitem d MEDIA_WIDTH of
                       Inl e \<Rightarrow> Inl e
                     | Inr media_width \<Rightarrow>
                         (case dict_getitem MEDIA_WIDTH_INFO media_width of
                            Inl e \<Rightarrow> Inl e
                          | Inr t \<Rightarrow>
                              Inr \<lparr>data = d, errors = Errors_init error_1 error_2,
                                   tape_info = t\<rparr>)))))"


definition ready :: "Status \<Rightarrow> bool" where
  "ready s = (\<not> Errors_any (errors s))"

section \<open>Run-length codec\<close>

text \<open>
  The source calls \<^verbatim>\<open>packbits.encode\<close>, which lives in a package outside the
  repository's sources. The codec below follows the specification's description: an encoded unit is a
  header byte followed either by one byte to be repeated or by a run of literal bytes;
  read as a signed number, a header \<open>h \<ge> 0\<close> announces \<open>h + 1\<close> literal bytes, a
  header \<open>-127 \<le> h \<le> -1\<close> announces \<open>1 - h\<close> copies of the next byte, and \<open>-128\<close>
  is skipped. A unit covers at most 128 bytes.
\<close>

text \<open>
  Modelled from the spec: helper of the missing \<^verbatim>\<open>packbits.encode\<close>; the number of
  bytes equal to \<open>x\<close> at the front of a byte string.
\<close>

fun repeat_run :: "byte \<Rightarrow> bytes \<Rightarrow> nat" where
  "repeat_run x [] = 0"
| "repeat_run x (y # ys) = (if y = x then Suc (repeat_run x ys) else 0)"

text \<open>
  Modelled from the spec: helper of the missing \<^verbatim>\<open>packbits.encode\<close>; the longest
  prefix that stops before two equal neighbours.
\<close>

fun literal_run :: "bytes \<Rightarrow> bytes" where
  "literal_run [] = []"
| "literal_run [x] = [x]"
| "literal_run (x # y # zs) = (if x = y then [] else x # literal_run (y # zs))"

text \<open>
  Modelled from the spec: the missing \<^verbatim>\<open>packbits.encode\<close> (the specification's
  \<^verbatim>\<open>compress\<close>). Two or more equal bytes become a repeat unit of at most 128 copies;
  anything else becomes a literal unit of at most 128 bytes; longer inputs continue
  with further units.
\<close>

function packbits_encode :: "bytes \<Rightarrow> bytes" where
  "packbits_encode [] = []"
| "packbits_encode (x # xs) =
     (let n = min 128 (repeat_run x (x # xs))
      in if 2 \<le> n
         then [word_of_int (1 - int n), x] @ packbits_encode (drop n (x # xs))
         else (let lit = take 128 (literal_run (x # xs))
               in word_of_nat (length lit - 1) # lit
                    @ packbits_encode (drop (length lit) (x # xs))))"
  by pat_completeness auto
termination
proof (relation "measure length")
  show "wf (measure length)" by simp
next
  fix x :: byte and xs n
  assume "n = min 128 (repeat_run x (x # xs))" and "2 \<le> n"
  then show "(drop n (x # xs), x # xs) \<in> measure length"
    by (cases n) auto
next
  fix x :: byte and xs n lit
  assume n: "n = min 128 (repeat_run x (x # xs))" and small: "\<not> 2 \<le> n"
    and lit: "lit = take 128 (literal_run (x # xs))"
  have "literal_run (x # xs) \<noteq> []"
  proof (cases xs)
    case Nil
    then show ?thesis by simp
  next
    case (Cons y ys)
    with n small have "x \<noteq> y" by (auto split: if_splits)
    with Cons show ?thesis by simp
  qed
  with lit have "lit \<noteq> []" by (cases "literal_run (x # xs)") auto
  then have "0 < length lit" by simp
  then show "(drop (length lit) (x # xs), x # xs) \<in> measure length"
    by (cases "length lit") auto
qed

text \<open>
  Modelled from the spec: the missing \<^verbatim>\<open>packbits.decode\<close> (the specification's
  \<^verbatim>\<open>decompress\<close>). Decoding fails on a run that is cut short.
\<close>

function packbits_decode :: "bytes \<Rightarrow> error + bytes" where
  "packbits_decode [] = Inr []"
| "packbits_decode (h # rest) =
     (if 0 \<le> sint h then
        (let n = nat (sint h) + 1
         in if length rest < n then Inl DecodeError
            else (case packbits_decode (drop n rest) of
                    Inl e \<Rightarrow> Inl e
                  | Inr out \<Rightarrow> Inr (take n rest @ out)))
      else if sint h = - 128 then packbits_decode rest
      else (case rest of
              [] \<Rightarrow> Inl DecodeError
            | b # rest' \<Rightarrow>
                (case packbits_decode rest' of
                   Inl e \<Rightarrow> Inl e
                 | Inr out \<Rightarrow> Inr (replicate (nat (1 - sint h)) b @ out))))"
  by pat_completeness auto
termination
  by (relation "measure length") auto

section \<open>Line encoder\<close>

text \<open>\<^verbatim>\<open>int.from_bytes(b, byteorder='big')\<close>.\<close>

definition int_from_bytes_big :: "bytes \<Rightarrow> int" where
  "int_from_bytes_big b = foldl (\<lambda>acc x. acc * 256 + uint x) 0 b"

text \<open>
  \<^verbatim>\<open>v.to_bytes(n, byteorder='big')\<close>: raises \<^verbatim>\<open>OverflowError\<close> when \<open>v\<close> is negative
  or does not fit in \<open>n\<close> bytes.
\<close>

definition int_to_bytes_big :: "int \<Rightarrow> nat \<Rightarrow> error + bytes" where
  "int_to_bytes_big v n =
     (if v < 0 \<or> 256 ^ n \<le> v then Inl OverflowError
      else Inr (map (\<lambda>k. word_of_int (drop_bit (8 * (n - 1 - k)) v)) [0..<n]))"

text \<open>
  \<^verbatim>\<open>a << b\<close> on Python integers: \<^verbatim>\<open>TypeError\<close> when the count is \<^verbatim>\<open>None\<close>,
  \<^verbatim>\<open>ValueError\<close> when it is negative.
\<close>

definition int_lshift :: "int \<Rightarrow> int option \<Rightarrow> error + int" where
  "int_lshift a b =
     (case b of
        None \<Rightarrow> Inl TypeError
      | Some c \<Rightarrow> if c < 0 then Inl (ValueError ''negative shift count'')
                  else Inr (push_bit (nat c) a))"

text \<open>\<^verbatim>\<open>struct.pack("<H", n)\<close>: two bytes, low byte first; fails beyond 16 bits.\<close>

definition struct_pack_H :: "nat \<Rightarrow> error + bytes" where
  "struct_pack_H n =
     (if n < 65536 then Inr [word_of_nat (n mod 256), word_of_nat (n div 256)]
      else Inl StructError)"

text \<open>The first three statements of \<^verbatim>\<open>encode_line\<close>: the buffer called \<^verbatim>\<open>padded\<close>.\<close>

definition encode_line_padded :: "bytes \<Rightarrow> TapeInfo \<Rightarrow> error + bytes" where
  "encode_line_padded bitmap_line tape =
     (let line_int = int_from_bytes_big bitmap_line
      in case int_lshift line_int (rmargin tape) of
           Inl e \<Rightarrow> Inl e
         | Inr line_int' \<Rightarrow> int_to_bytes_big line_int' 16)"

definition encode_line :: "bytes \<Rightarrow> TapeInfo \<Rightarrow> error + bytes" where
  "encode_line bitmap_line tape =
     (case encode_line_padded bitmap_line tape of
        Inl e \<Rightarrow> Inl e
      | Inr padded \<Rightarrow>
          (let compressed = packbits_encode padded
           in case struct_pack_H (length compressed) of
                Inl e \<Rightarrow> Inl e
              | Inr prefix \<Rightarrow> Inr (prefix @ compressed)))"

section \<open>Printer session\<close>

text \<open>
  Modelled from the spec: the transport (\<^verbatim>\<open>BaseBackend\<close>) and the renderer
  (\<^verbatim>\<open>Label\<close>, and the image library behind it) are collaborators outside the
  repository's sources. The world records every \<^verbatim>\<open>write\<close> call in order, holds the replies that the
  coming \<^verbatim>\<open>read\<close> calls will return, and records every call of \<^verbatim>\<open>render\<close> with
  its height argument.
\<close>

record world =
  written :: "bytes list"
  incoming :: "bytes list"
  rendered :: "int option list"

text \<open>
  Modelled from the spec: the image handed to the printer, as the image library
  leaves it after rotation, flip and inversion: its mode, its size and its bytes.
\<close>

record Image =
  mode :: string
  size_image :: "nat \<times> nat"
  tobytes :: bytes

text \<open>Modelled from the spec: a label is what its \<^verbatim>\<open>render\<close> method computes.\<close>

record Label =
  render :: "int option \<Rightarrow> error + Image"

type_synonym 'a action = "world \<Rightarrow> world \<times> (error + 'a)"

text \<open>Modelled from the spec: \<^verbatim>\<open>backend.write(b)\<close> appends to the log and returns.\<close>

definition backend_write :: "bytes \<Rightarrow> unit action" where
  "backend_write b w = (w\<lparr>written := written w @ [b]\<rparr>, Inr ())"

text \<open>
  Modelled from the spec: \<^verbatim>\<open>backend.read(n)\<close> returns the next reply, or nothing
  when no reply is waiting. The reply may be shorter than asked.
\<close>

definition backend_read :: "nat \<Rightarrow> world \<Rightarrow> world \<times> bytes" where
  "backend_read n w =
     (case incoming w of
        [] \<Rightarrow> (w, [])
      | r # rs \<Rightarrow> (w\<lparr>incoming := rs\<rparr>, r))"

text \<open>Statements in sequence: the first exception ends the block.\<close>

fun in_sequence :: "unit action list \<Rightarrow> unit action" where
  "in_sequence [] w = (w, Inr ())"
| "in_sequence (a # rest) w =
     (case a w of
        (w', Inl e) \<Rightarrow> (w', Inl e)
      | (w', Inr _) \<Rightarrow> in_sequence rest w')"

function batch_iter_bytes :: "bytes \<Rightarrow> nat \<Rightarrow> bytes list" where
  "batch_iter_bytes b n =
     (if take n b = [] then [] else take n b # batch_iter_bytes (drop n b) n)"
  by pat_completeness auto
termination
  by (relation "measure (\<lambda>(b, n). length b)") (auto simp: neq_Nil_conv)

definition P700_reset :: "unit action" where
  "P700_reset =
     in_sequence [backend_write (replicate 100 0x00), backend_write [0x1B, 0x40]]"

definition P700_get_status :: "Status action" where
  "P700_get_status w =
     (case in_sequence [P700_reset, backend_write [0x1B, 0x69, 0x53]] w of
        (w1, Inl e) \<Rightarrow> (w1, Inl e)
      | (w1, Inr _) \<Rightarrow>
          (case backend_read 32 w1 of
             (w2, msg) \<Rightarrow>
               if msg = [] then (w2, Inl (IOError ''No Response from printer''))
               else if length msg < 32 then (w2, Inl (IOError ''Invalid Response from printer''))
               else (w2, Status_init msg)))"

definition P700_debug_status :: "unit action" where
  "P700_debug_status w =
     (case backend_read 32 w of
        (w1, msg) \<Rightarrow>
          if msg \<noteq> [] then
            (case Status_init msg of
               Inl e \<Rightarrow> (w1, Inl e)
             | Inr _ \<Rightarrow> (w1, Inr ()))
          else (w1, Inr ()))"

definition print_information :: bytes where
  "print_information =
     [0x1B, 0x69, 0x7A, 0x86, 0x01, 0x0C, 0x00, 0x00, 0x00, 0x00, 0x00, 0x00]"

text \<open>One raster line: \<^verbatim>\<open>backend.write(b'G' + encode_line(line, status.tape_info))\<close>.\<close>

definition write_raster_line :: "Status \<Rightarrow> bytes \<Rightarrow> unit action" where
  "write_raster_line status line w =
     (case encode_line line (tape_info status) of
        Inl e \<Rightarrow> (w, Inl e)
      | Inr chunk \<Rightarrow> backend_write (0x47 # chunk) w)"

text \<open>The body of the loop \<^verbatim>\<open>for i in range(0, count)\<close>.\<close>

definition raw_print_page :: "Status \<Rightarrow> bytes list \<Rightarrow> int \<Rightarrow> int \<Rightarrow> unit action" where
  "raw_print_page status document count i =
     in_sequence
       ([backend_write [0x1B, 0x69, 0x61, 0x01],
         P700_debug_status,
         backend_write print_information]
        @ (if i = 0 then [backend_write print_information] else [])
        @ [backend_write [0x1B, 0x69, 0x4D, 0x40],
           P700_debug_status,
           backend_write [0x1B, 0x69, 0x41, 0x01],
           backend_write [0x1B, 0x69, 0x4B, 0x08],
           P700_debug_status,
           backend_write [0x1B, 0x69, 0x64, 0x0E, 0x00],
           P700_debug_status,
           backend_write [0x4D, 0x02],
           P700_debug_status]
        @ map (write_raster_line status) document
        @ [backend_write [0x5A]]
        @ (if i < count - 1 then [backend_write [0x0C]] else []))"

definition P700_raw_print :: "Status \<Rightarrow> bytes list \<Rightarrow> int \<Rightarrow> unit action" where
  "P700_raw_print status document count =
     in_sequence
       ([P700_reset]
        @ map (raw_print_page status document count) [0..count - 1]
        @ [P700_debug_status, backend_write [0x1A], P700_debug_status])"

definition P700_print_label :: "Label \<Rightarrow> unit action" where
  "P700_print_label label w =
     (case P700_get_status w of
        (w1, Inl e) \<Rightarrow> (w1, Inl e)
      | (w1, Inr status) \<Rightarrow>
          if \<not> ready status then (w1, Inl (IOError ''Printer is not ready''))
          else
            (let height = printarea (tape_info status);
                 w2 = w1\<lparr>rendered := rendered w1 @ [height]\<rparr>
             in case render label height of
                  Inl e \<Rightarrow> (w2, Inl e)
                | Inr img \<Rightarrow>
                    if mode img \<noteq> ''1''
                    then (w2, Inl (ValueError ''render output has invalid mode''))
                    else P700_raw_print status
                           (batch_iter_bytes (tobytes img) ((fst (size_image img) + 7) div 8)) 1 w2))"

section \<open>The line encoder in the specification's words\<close>

text \<open>
  The bytes of a sequence read as one unsigned integer, most significant byte first:
  byte \<open>i\<close> of \<open>n\<close> bytes weighs \<open>256 ^ (n - 1 - i)\<close>. This is the specification's
  reading, to be compared with \<open>int_from_bytes_big\<close>.
\<close>

definition big_endian_value :: "bytes \<Rightarrow> int" where
  "big_endian_value b = (\<Sum>i<length b. uint (b ! i) * 256 ^ (length b - 1 - i))"

text \<open>A count as two bytes, least significant byte first.\<close>

definition little_endian_prefix :: "nat \<Rightarrow> bytes" where
  "little_endian_prefix n = [word_of_nat (n mod 256), word_of_nat (n div 256)]"

section \<open>The print session in the specification's words\<close>









section \<open>Example inputs\<close>

text \<open>A status reply of a printer holding 24 mm tape, with no error bit set.\<close>

definition status_reply_24mm :: bytes where
  "status_reply_24mm =
     [0x80, 0x20, 0x42, 0x30, 0x67, 0x30, 0, 0, 0, 0, 24, 1,
      0, 0, 0, 0, 0, 0, 0, 0, 0, 0, 0, 0, 0, 0, 0, 0, 0, 0, 0, 0]"

text \<open>The same reply with bit 0 of the first error byte set.\<close>

definition status_reply_no_media :: bytes where
  "status_reply_no_media = status_reply_24mm[8 := 1]"

text \<open>The same reply with the media width code 36, which the table does not hold.\<close>

definition status_reply_36mm :: bytes where
  "status_reply_36mm = status_reply_24mm[10 := 36]"

text \<open>The same reply with the media width code 99, which the table does not hold.\<close>

definition status_reply_unknown_media :: bytes where
  "status_reply_unknown_media = status_reply_24mm[10 := 99]"

text \<open>The table's geometry for 18 mm and for 24 mm tape.\<close>

definition tape_18mm :: TapeInfo where
  "tape_18mm = mk_TapeInfo (Some 8) (Some 112) (Some 8) (Some 18.0)"

definition tape_24mm :: TapeInfo where
  "tape_24mm = mk_TapeInfo (Some 0) (Some 128) (Some 0) (Some 24.0)"

text \<open>A status reply for 18 mm tape, and the status it decodes to.\<close>

definition status_reply_18mm :: bytes where
  "status_reply_18mm = status_reply_24mm[10 := 18]"

definition status_18mm :: Status where
  "status_18mm =
     \<lparr>data = map (\<lambda>i. (i, uint (status_reply_18mm ! INFO_OFFSETS_value i))) INFO_OFFSETS_members,
      errors = Errors_init 0 0,
      tape_info = tape_18mm\<rparr>"

text \<open>A transport on which nothing has been written and no reply is waiting.\<close>

definition quiet_world :: world where
  "quiet_world = \<lparr>written = [], incoming = [], rendered = []\<rparr>"


text \<open>A label that renders to an empty image of mode "1".\<close>

definition blank_label :: Label where
  "blank_label = \<lparr>render = (\<lambda>height. Inr \<lparr>mode = ''1'', size_image = (0, 0), tobytes = []\<rparr>)\<rparr>"

text \<open>A transport whose next reply reports that no media is loaded.\<close>

definition no_media_world :: world where
  "no_media_world = \<lparr>written = [], incoming = [status_reply_no_media], rendered = []\<rparr>"

section \<open>Status decoding\<close>

lemma Status_data_eq:
  "Status_data msg xs =
     (if \<forall>i\<in>set xs. INFO_OFFSETS_value i < length msg
      then Inr (map (\<lambda>i. (i, uint (msg ! INFO_OFFSETS_value i))) xs)
      else Inl IndexError)"
  by (induction xs) (auto simp: bytes_getitem_def)

lemma members_in_range:
  "(\<forall>i\<in>set INFO_OFFSETS_members. INFO_OFFSETS_value i < length msg) \<longleftrightarrow> 26 < length msg"
  by (auto simp: INFO_OFFSETS_members_def)

text \<open>
  Decoding in closed form: a message of fewer than 27 bytes raises \<^verbatim>\<open>IndexError\<close>, a
  media width outside the table raises \<^verbatim>\<open>KeyError\<close>, anything else decodes.
\<close>

lemma Status_init_eq:
  "Status_init msg =
     (if length msg \<le> 26 then Inl IndexError
      else (case map_of MEDIA_WIDTH_INFO (uint (msg ! 10)) of
              None \<Rightarrow> Inl KeyError
            | Some t \<Rightarrow>
                Inr \<lparr>data = map (\<lambda>i. (i, uint (msg ! INFO_OFFSETS_value i))) INFO_OFFSETS_members,
                     errors = Errors_init (uint (msg ! 8)) (uint (msg ! 9)),
                     tape_info = t\<rparr>))"
  unfolding Status_init_def Status_data_eq members_in_range
  by (simp add: dict_getitem_def INFO_OFFSETS_members_def split: option.splits)

lemma Status_init_errors:
  "Status_init msg = Inr st \<Longrightarrow> errors st = Errors_init (uint (msg ! 8)) (uint (msg ! 9))"
  by (auto simp: Status_init_eq split: if_splits option.splits)

lemma bit_test: "(v AND push_bit n (1::int) \<noteq> 0) = bit v n"
  by (simp add: bit_iff_and_push_bit_not_eq_0)

lemma Errors_init_data:
  "errors_data (Errors_init b1 b2) =
     [(NO_MEDIA, bit (Errors_value b1 b2) 0), (CUTTER_JAM, bit (Errors_value b1 b2) 2),
      (WEAK_BATTERY, bit (Errors_value b1 b2) 3), (HV_ADAPTER, bit (Errors_value b1 b2) 6),
      (REPLACE_MEDIA, bit (Errors_value b1 b2) 8), (COVER_OPEN, bit (Errors_value b1 b2) 12),
      (OVERHEATING, bit (Errors_value b1 b2) 13)]"
  unfolding Errors_init_def ERROR_MASK_def Let_def
  by (simp only: list.map prod.case bit_test Errors.simps)

text \<open>Bit \<open>k\<close> of the combined value is bit \<open>k\<close> of the first byte or bit \<open>k - 8\<close> of the second.\<close>

lemma Errors_value_bit:
  fixes b1 b2 :: byte
  shows "bit (Errors_value (uint b1) (uint b2)) k = (if k < 8 then bit b1 k else bit b2 (k - 8))"
  by (auto simp: Errors_value_def bit_or_iff bit_push_bit_iff bit_uint_iff not_less
      dest: bit_imp_le_length)

lemma Errors_value_range:
  fixes b1 b2 :: byte
  shows "0 \<le> Errors_value (uint b1) (uint b2) \<and> Errors_value (uint b1) (uint b2) < 65536"
proof -
  let ?v = "Errors_value (uint b1) (uint b2)"
  have "0 \<le> ?v" by (simp add: Errors_value_def)
  moreover have "?v = take_bit 16 ?v"
    by (rule bit_eqI) (auto simp: bit_take_bit_iff Errors_value_bit dest: bit_imp_le_length)
  moreover have "take_bit 16 ?v < 2 ^ 16" by (rule take_bit_int_less_exp)
  ultimately show ?thesis by simp
qed

lemma Errors_any_eq:
  "Errors_any (Errors_init b1 b2) \<longleftrightarrow>
     bit (Errors_value b1 b2) 0 \<or> bit (Errors_value b1 b2) 2 \<or> bit (Errors_value b1 b2) 3 \<or>
     bit (Errors_value b1 b2) 6 \<or> bit (Errors_value b1 b2) 8 \<or> bit (Errors_value b1 b2) 12 \<or>
     bit (Errors_value b1 b2) 13"
  unfolding Errors_any_def Errors_init_data by simp

lemma Errors_getattr_eq:
  "Errors_getattr (Errors_init b1 b2) NO_MEDIA = Inr (bit (Errors_value b1 b2) 0)"
  "Errors_getattr (Errors_init b1 b2) CUTTER_JAM = Inr (bit (Errors_value b1 b2) 2)"
  "Errors_getattr (Errors_init b1 b2) WEAK_BATTERY = Inr (bit (Errors_value b1 b2) 3)"
  "Errors_getattr (Errors_init b1 b2) HV_ADAPTER = Inr (bit (Errors_value b1 b2) 6)"
  "Errors_getattr (Errors_init b1 b2) REPLACE_MEDIA = Inr (bit (Errors_value b1 b2) 8)"
  "Errors_getattr (Errors_init b1 b2) COVER_OPEN = Inr (bit (Errors_value b1 b2) 12)"
  "Errors_getattr (Errors_init b1 b2) OVERHEATING = Inr (bit (Errors_value b1 b2) 13)"
  "Errors_getattr (Errors_init b1 b2) UNKNOWN = Inl KeyError"
  unfolding Errors_getattr_def dict_getitem_def Errors_init_data by simp_all

lemma ready_eq:
  "ready (st\<lparr>errors := Errors_init b1 b2\<rparr>) \<longleftrightarrow>
     \<not> (bit (Errors_value b1 b2) 0 \<or> bit (Errors_value b1 b2) 2 \<or> bit (Errors_value b1 b2) 3 \<or>
        bit (Errors_value b1 b2) 6 \<or> bit (Errors_value b1 b2) 8 \<or> bit (Errors_value b1 b2) 12 \<or>
        bit (Errors_value b1 b2) 13)"
  unfolding ready_def by (simp add: Errors_any_eq)

lemma ready_bytes:
  fixes b1 b2 :: byte
  shows "ready (st\<lparr>errors := Errors_init (uint b1) (uint b2)\<rparr>) \<longleftrightarrow>
     \<not> (bit b1 0 \<or> bit b1 2 \<or> bit b1 3 \<or> bit b1 6 \<or> bit b2 0 \<or> bit b2 4 \<or> bit b2 5)"
  unfolding ready_eq Errors_value_bit by simp

lemma ready_outside_mask:
  fixes b1 b2 m1 m2 :: byte
  shows "ready (st\<lparr>errors := Errors_init (uint (b1 OR (m1 AND NOT 0x4D)))
                                         (uint (b2 OR (m2 AND NOT 0x31)))\<rparr>)
       = ready (st\<lparr>errors := Errors_init (uint b1) (uint b2)\<rparr>)"
  unfolding ready_bytes
  by (simp add: bit_or_iff bit_and_iff bit_not_iff)

lemma ready_no_media:
  "\<not> ready (st\<lparr>errors := Errors_init 1 b2\<rparr>)"
  unfolding ready_eq by (simp add: Errors_value_def bit_or_iff)

lemma ready_all_zero:
  "ready (st\<lparr>errors := Errors_init 0 0\<rparr>)"
  unfolding ready_eq by (simp add: Errors_value_def)

text \<open>
  Claim C5. For every pair of error bytes, combined as the 16-bit value
  \<^verbatim>\<open>byte1 | byte2 << 8\<close>, each named error flag is the bit of that value at its
  position (0, 2, 3, 6, 8, 12, 13), and \<open>ready\<close> holds exactly when none of these
  bits is set. Setting bits outside the mask in either byte leaves \<open>ready\<close> as it is,
  and building the error set never fails. A first error byte of 1 makes
  \<^verbatim>\<open>no_media\<close> true and \<open>ready\<close> false; two zero error bytes make \<open>ready\<close> true.
  The error set of a decoded status is built from bytes 8 and 9 of the reply.
\<close>

theorem Errors_bits_and_ready:
  fixes byte1 byte2 m1 m2 :: byte
  shows
   "(let e = Errors_init (uint byte1) (uint byte2);
         v = Errors_value (uint byte1) (uint byte2)
     in v = uint byte1 OR push_bit 8 (uint byte2) \<and> 0 \<le> v \<and> v < 2 ^ 16 \<and>
        Errors_getattr e NO_MEDIA = Inr (bit v 0) \<and>
        Errors_getattr e CUTTER_JAM = Inr (bit v 2) \<and>
        Errors_getattr e WEAK_BATTERY = Inr (bit v 3) \<and>
        Errors_getattr e HV_ADAPTER = Inr (bit v 6) \<and>
        Errors_getattr e REPLACE_MEDIA = Inr (bit v 8) \<and>
        Errors_getattr e COVER_OPEN = Inr (bit v 12) \<and>
        Errors_getattr e OVERHEATING = Inr (bit v 13) \<and>
        (ready (st\<lparr>errors := e\<rparr>) \<longleftrightarrow>
           \<not> (bit v 0 \<or> bit v 2 \<or> bit v 3 \<or> bit v 6 \<or> bit v 8 \<or> bit v 12 \<or> bit v 13)) \<and>
        ready (st\<lparr>errors := Errors_init (uint (byte1 OR (m1 AND NOT 0x4D)))
                                        (uint (byte2 OR (m2 AND NOT 0x31)))\<rparr>)
          = ready (st\<lparr>errors := e\<rparr>))
    \<and> Errors_getattr (Errors_init 1 (uint byte2)) NO_MEDIA = Inr True
    \<and> \<not> ready (st\<lparr>errors := Errors_init 1 (uint byte2)\<rparr>)
    \<and> ready (st\<lparr>errors := Errors_init 0 0\<rparr>)
    \<and> (Status_init msg = Inr st' \<longrightarrow>
          errors st' = Errors_init (uint (msg ! 8)) (uint (msg ! 9)))"
proof -
  have nm: "Errors_getattr (Errors_init 1 (uint byte2)) NO_MEDIA = Inr True"
    by (simp add: Errors_getattr_eq Errors_value_def bit_or_iff)
  have rng: "Errors_value (uint byte1) (uint byte2) < 2 ^ 16"
    using Errors_value_range [of byte1 byte2] by simp
  have pos: "0 \<le> Errors_value (uint byte1) (uint byte2)"
    using Errors_value_range [of byte1 byte2] by simp
  have val: "Errors_value (uint byte1) (uint byte2) = uint byte1 OR push_bit 8 (uint byte2)"
    by (simp add: Errors_value_def)
  show ?thesis
    unfolding Let_def
    by (intro conjI impI val pos rng nm Errors_getattr_eq ready_eq ready_outside_mask
        ready_no_media ready_all_zero Status_init_errors)
qed

theorem Errors_bits_and_ready_witness:
  "\<exists>st'. Status_init status_reply_no_media = Inr st' \<and> errors st' = Errors_init 1 0 \<and>
         Errors_getattr (errors st') NO_MEDIA = Inr True \<and> \<not> ready st'"
proof -
  obtain st' where st': "Status_init status_reply_no_media = Inr st'"
    by (simp add: Status_init_eq status_reply_no_media_def status_reply_24mm_def
        MEDIA_WIDTH_INFO_def)
  from Errors_bits_and_ready
         [where msg = status_reply_no_media and st' = st' and st = st' and ?byte2.0 = 0] st'
  have e: "errors st' = Errors_init (uint (status_reply_no_media ! 8))
                                     (uint (status_reply_no_media ! 9))"
    and nr: "\<not> ready (st'\<lparr>errors := Errors_init 1 0\<rparr>)"
    and nm: "Errors_getattr (Errors_init 1 0) NO_MEDIA = Inr True"
    by (simp_all add: Let_def)
  from e have e': "errors st' = Errors_init 1 0"
    by (simp add: status_reply_no_media_def status_reply_24mm_def)
  then have "st'\<lparr>errors := Errors_init 1 0\<rparr> = st'" by (cases st') simp
  with nr nm e' st' show ?thesis by simp
qed

text \<open>The media width codes of the table.\<close>

lemma MEDIA_WIDTH_INFO_keys:
  "map_of MEDIA_WIDTH_INFO c \<noteq> None \<longleftrightarrow> c \<in> {0, 4, 6, 9, 12, 18, 24}"
  by (simp add: MEDIA_WIDTH_INFO_def)



text \<open>
  Claim C6. The claim asks that every 32-byte status buffer decodes to a status whose
  fields are the bytes at the fixed offsets. That holds for the seven media width
  codes of the table (\<open>Status_fields_positional\<close>, with byte 10 equal to 24 giving
  media width 24 and tape info (0, 128, 0, 24.0)). On any other code, such as 36, the
  decoder raises \<^verbatim>\<open>KeyError\<close> after reading the fields, and there is no decoded
  status to read them from.
\<close>

theorem Status_fields_unknown_media_code:
  "length status_reply_36mm = 32 \<and> status_reply_36mm ! 10 = 36 \<and>
   map_of MEDIA_WIDTH_INFO 36 = None \<and>
   Status_init status_reply_36mm = Inl KeyError"
  by (simp add: Status_init_eq MEDIA_WIDTH_INFO_def status_reply_36mm_def
      status_reply_24mm_def)

text \<open>
  Claim C4. The claim asks that a status buffer with a media width code outside the
  table, such as 99, decodes to the sentinel tape info. The decoder subscripts the
  table with the code, so on such a buffer it raises \<^verbatim>\<open>KeyError\<close> and builds no
  status at all.
\<close>

theorem Status_init_unknown_media_code:
  "length status_reply_unknown_media = 32 \<and> status_reply_unknown_media ! 10 = 99 \<and>
   Status_init status_reply_unknown_media = Inl KeyError"
  by (simp add: Status_init_eq MEDIA_WIDTH_INFO_def status_reply_unknown_media_def
      status_reply_24mm_def)

section \<open>Run-length codec: round trip\<close>

lemma repeat_run_take: "n \<le> repeat_run x ys \<Longrightarrow> take n ys = replicate n x"
proof (induction ys arbitrary: n)
  case Nil
  then show ?case by simp
next
  case (Cons y ys)
  then show ?case by (cases n) (auto split: if_splits)
qed

lemma literal_run_take: "take (length (literal_run ys)) ys = literal_run ys"
  by (induction ys rule: literal_run.induct) auto

lemma literal_unit_take:
  "take (length (take 128 (literal_run ys))) ys = take 128 (literal_run ys)"
proof -
  have "take (length (take 128 (literal_run ys))) ys
          = take 128 (take (length (literal_run ys)) ys)"
    by (simp add: min.commute)
  then show ?thesis by (simp add: literal_run_take)
qed

lemma literal_run_nonempty:
  "\<not> 2 \<le> min 128 (repeat_run x (x # xs)) \<Longrightarrow> literal_run (x # xs) \<noteq> []"
  by (cases xs) (auto split: if_splits)

lemma sint_repeat_header:
  assumes "2 \<le> n" "n \<le> 128"
  shows "sint (word_of_int (1 - int n) :: byte) = 1 - int n"
proof -
  have "sint (word_of_int (1 - int n) :: byte)
          = (1 - int n + 2 ^ (LENGTH(8) - 1)) mod 2 ^ LENGTH(8) - 2 ^ (LENGTH(8) - 1)"
    by (rule int_word_sint)
  also have "\<dots> = (129 - int n) mod 256 - 128" by simp
  also have "(129 - int n) mod 256 = 129 - int n"
    using assms by (intro mod_pos_pos_trivial) auto
  finally show ?thesis by simp
qed

lemma sint_literal_header:
  assumes "k \<le> 127"
  shows "sint (word_of_nat k :: byte) = int k"
proof -
  have "(word_of_nat k :: byte) = word_of_int (int k)" by simp
  then have "sint (word_of_nat k :: byte)
          = (int k + 2 ^ (LENGTH(8) - 1)) mod 2 ^ LENGTH(8) - 2 ^ (LENGTH(8) - 1)"
    by (simp only: int_word_sint)
  also have "\<dots> = (int k + 128) mod 256 - 128" by simp
  also have "(int k + 128) mod 256 = int k + 128"
    using assms by (intro mod_pos_pos_trivial) auto
  finally show ?thesis by simp
qed

lemma decode_repeat_header:
  assumes "sint h = 1 - int n" "2 \<le> n" "n \<le> 128"
  shows "packbits_decode (h # x # rest) =
           (case packbits_decode rest of Inl e \<Rightarrow> Inl e | Inr out \<Rightarrow> Inr (replicate n x @ out))"
proof -
  from assms have neg: "\<not> 0 \<le> sint h" and no_skip: "sint h \<noteq> - 128" by auto
  from assms have cnt: "nat (1 - sint h) = n" by simp
  show ?thesis by (simp add: neg no_skip cnt split: sum.splits)
qed

lemma decode_literal_header:
  assumes "sint h = int (length lit) - 1" "lit \<noteq> []"
  shows "packbits_decode (h # lit @ rest) =
           (case packbits_decode rest of Inl e \<Rightarrow> Inl e | Inr out \<Rightarrow> Inr (lit @ out))"
proof -
  from assms have pos: "0 \<le> sint h" by (cases lit) auto
  from assms have cnt: "nat (sint h) + 1 = length lit" by (cases lit) auto
  have enough: "\<not> length (lit @ rest) < length lit" by simp
  have front: "take (length lit) (lit @ rest) = lit" by simp
  have behind: "drop (length lit) (lit @ rest) = rest" by simp
  show ?thesis
    by (subst packbits_decode.simps) (simp only: pos cnt enough front behind Let_def if_True if_False)
qed

lemma decode_repeat_unit:
  assumes "2 \<le> n" "n \<le> 128"
  shows "packbits_decode ([word_of_int (1 - int n), x] @ rest) =
           (case packbits_decode rest of Inl e \<Rightarrow> Inl e | Inr out \<Rightarrow> Inr (replicate n x @ out))"
  using decode_repeat_header [OF sint_repeat_header [OF assms] assms, of x rest]
  by (simp only: append_Cons append_Nil)

lemma decode_literal_unit:
  assumes "lit \<noteq> []" "length lit \<le> 128"
  shows "packbits_decode (word_of_nat (length lit - 1) # lit @ rest) =
           (case packbits_decode rest of Inl e \<Rightarrow> Inl e | Inr out \<Rightarrow> Inr (lit @ out))"
proof -
  from assms have k: "length lit - 1 \<le> 127" and pos: "0 < length lit" by auto
  have "sint (word_of_nat (length lit - 1) :: byte) = int (length lit - 1)"
    by (rule sint_literal_header [OF k])
  also have "\<dots> = int (length lit) - 1" using assms(1) by (cases lit) auto
  finally show ?thesis using assms(1) by (rule decode_literal_header)
qed

lemma packbits_encode_repeat:
  assumes "2 \<le> min 128 (repeat_run x (x # xs))"
  shows "packbits_encode (x # xs) =
           [word_of_int (1 - int (min 128 (repeat_run x (x # xs)))), x]
             @ packbits_encode (drop (min 128 (repeat_run x (x # xs))) (x # xs))"
  by (subst packbits_encode.simps) (simp only: Let_def assms if_True)

lemma packbits_encode_literal:
  assumes "\<not> 2 \<le> min 128 (repeat_run x (x # xs))"
  shows "packbits_encode (x # xs) =
           word_of_nat (length (take 128 (literal_run (x # xs))) - 1)
             # take 128 (literal_run (x # xs))
             @ packbits_encode (drop (length (take 128 (literal_run (x # xs)))) (x # xs))"
  by (subst packbits_encode.simps) (simp only: Let_def assms if_False)

lemma packbits_roundtrip: "packbits_decode (packbits_encode xs) = Inr xs"
proof (induction xs rule: packbits_encode.induct)
  case 1
  show ?case by simp
next
  case (2 x xs)
  define n where "n = min 128 (repeat_run x (x # xs))"
  show ?case
  proof (cases "2 \<le> n")
    case True
    have n128: "n \<le> 128" by (simp add: n_def)
    have "n \<le> repeat_run x (x # xs)" by (simp add: n_def)
    then have tk: "take n (x # xs) = replicate n x" by (rule repeat_run_take)
    have IH: "packbits_decode (packbits_encode (drop n (x # xs))) = Inr (drop n (x # xs))"
      using "2.IH"(1) [OF n_def True] .
    have "packbits_encode (x # xs) =
            [word_of_int (1 - int n), x] @ packbits_encode (drop n (x # xs))"
      using packbits_encode_repeat [OF True [unfolded n_def]] unfolding n_def .
    then have "packbits_decode (packbits_encode (x # xs)) = Inr (replicate n x @ drop n (x # xs))"
      by (simp only: decode_repeat_unit [OF True n128] IH sum.case)
    also have "replicate n x @ drop n (x # xs) = x # xs"
      by (simp only: tk [symmetric] append_take_drop_id)
    finally show ?thesis .
  next
    case False
    define lit where "lit = take 128 (literal_run (x # xs))"
    have ne: "lit \<noteq> []"
      using literal_run_nonempty [of x xs] False by (simp add: lit_def n_def)
    have len: "length lit \<le> 128" by (simp add: lit_def)
    have tk: "take (length lit) (x # xs) = lit"
      unfolding lit_def by (rule literal_unit_take)
    have IH: "packbits_decode (packbits_encode (drop (length lit) (x # xs)))
                = Inr (drop (length lit) (x # xs))"
      using "2.IH"(2) [OF n_def False lit_def] .
    have "packbits_encode (x # xs) =
            word_of_nat (length lit - 1) # lit @ packbits_encode (drop (length lit) (x # xs))"
      using packbits_encode_literal [OF False [unfolded n_def]] unfolding lit_def .
    then have "packbits_decode (packbits_encode (x # xs))
                 = Inr (lit @ drop (length lit) (x # xs))"
      by (simp only: decode_literal_unit [OF ne len] IH sum.case)
    also have "lit @ drop (length lit) (x # xs) = x # xs"
      using tk append_take_drop_id [of "length lit" "x # xs"] by simp
    finally show ?thesis .
  qed
qed

lemma packbits_encode_length: "length (packbits_encode xs) \<le> 2 * length xs"
proof (induction xs rule: packbits_encode.induct)
  case 1
  show ?case by simp
next
  case (2 x xs)
  define n where "n = min 128 (repeat_run x (x # xs))"
  show ?case
  proof (cases "2 \<le> n")
    case True
    have nlen: "n \<le> length (x # xs)"
    proof -
      have "n \<le> repeat_run x (x # xs)" by (simp add: n_def)
      then have "take n (x # xs) = replicate n x" by (rule repeat_run_take)
      then have "length (take n (x # xs)) = n" by simp
      then show ?thesis by simp
    qed
    have IH: "length (packbits_encode (drop n (x # xs))) \<le> 2 * length (drop n (x # xs))"
      using "2.IH"(1) [OF n_def True] .
    have "packbits_encode (x # xs) =
            [word_of_int (1 - int n), x] @ packbits_encode (drop n (x # xs))"
      using packbits_encode_repeat [OF True [unfolded n_def]] unfolding n_def .
    then have "length (packbits_encode (x # xs)) = 2 + length (packbits_encode (drop n (x # xs)))"
      by simp
    also have "\<dots> \<le> 2 + 2 * length (drop n (x # xs))" using IH by simp
    also have "\<dots> \<le> 2 * length (x # xs)" using True nlen by simp
    finally show ?thesis .
  next
    case False
    define lit where "lit = take 128 (literal_run (x # xs))"
    have ne: "lit \<noteq> []"
      using literal_run_nonempty [of x xs] False by (simp add: lit_def n_def)
    then have pos: "1 \<le> length lit" by (cases lit) auto
    have tk: "take (length lit) (x # xs) = lit"
      unfolding lit_def by (rule literal_unit_take)
    then have "length (take (length lit) (x # xs)) = length lit" by simp
    then have llen: "length lit \<le> length (x # xs)" by simp
    have IH: "length (packbits_encode (drop (length lit) (x # xs)))
                \<le> 2 * length (drop (length lit) (x # xs))"
      using "2.IH"(2) [OF n_def False lit_def] .
    have "packbits_encode (x # xs) =
            word_of_nat (length lit - 1) # lit @ packbits_encode (drop (length lit) (x # xs))"
      using packbits_encode_literal [OF False [unfolded n_def]] unfolding lit_def .
    then have "length (packbits_encode (x # xs))
                 = 1 + length lit + length (packbits_encode (drop (length lit) (x # xs)))"
      by simp
    also have "\<dots> \<le> 1 + length lit + 2 * length (drop (length lit) (x # xs))"
      using IH by simp
    also have "\<dots> \<le> 2 * length (x # xs)" using pos llen by simp
    finally show ?thesis .
  qed
qed

text \<open>
  Claim C2. For every byte sequence \<open>x\<close>, decompressing the compression of \<open>x\<close>
  gives \<open>x\<close> back: empty, one repeated byte, all literal, or longer than the 128
  bytes one unit can hold, in which case the encoder continues with further units.
\<close>

theorem packbits_decode_encode: "packbits_decode (packbits_encode x) = Inr x"
  by (rule packbits_roundtrip)

section \<open>Line encoder\<close>

lemma int_from_bytes_big_snoc:
  "int_from_bytes_big (xs @ [x]) = int_from_bytes_big xs * 256 + uint x"
  by (simp add: int_from_bytes_big_def)

lemma big_endian_value_snoc:
  "big_endian_value (xs @ [x]) = big_endian_value xs * 256 + uint x"
proof -
  have "big_endian_value (xs @ [x])
          = (\<Sum>i<length xs. uint ((xs @ [x]) ! i) * 256 ^ (length xs - i)) + uint x"
    by (simp add: big_endian_value_def)
  also have "(\<Sum>i<length xs. uint ((xs @ [x]) ! i) * 256 ^ (length xs - i))
               = (\<Sum>i<length xs. uint (xs ! i) * 256 ^ (length xs - 1 - i) * 256)"
  proof (rule sum.cong)
    fix i assume "i \<in> {..<length xs}"
    then have i: "i < length xs" by simp
    then have "length xs - i = Suc (length xs - 1 - i)" by simp
    with i show "uint ((xs @ [x]) ! i) * 256 ^ (length xs - i)
                   = uint (xs ! i) * 256 ^ (length xs - 1 - i) * 256"
      by (simp add: nth_append)
  qed simp
  also have "\<dots> = big_endian_value xs * 256"
    by (simp add: big_endian_value_def sum_distrib_right)
  finally show ?thesis .
qed

lemma int_from_bytes_big_eq: "int_from_bytes_big b = big_endian_value b"
proof (induction b rule: rev_induct)
  case Nil
  show ?case by (simp add: int_from_bytes_big_def big_endian_value_def)
next
  case (snoc x xs)
  then show ?case by (simp only: int_from_bytes_big_snoc big_endian_value_snoc)
qed

lemma int_from_bytes_big_Cons:
  "int_from_bytes_big (x # xs) = uint x * 256 ^ length xs + int_from_bytes_big xs"
proof (induction xs rule: rev_induct)
  case Nil
  show ?case by (simp add: int_from_bytes_big_def)
next
  case (snoc y ys)
  have "int_from_bytes_big (x # ys @ [y]) = int_from_bytes_big ((x # ys) @ [y])" by simp
  also have "\<dots> = int_from_bytes_big (x # ys) * 256 + uint y"
    by (rule int_from_bytes_big_snoc)
  finally show ?case
    by (simp add: snoc.IH int_from_bytes_big_snoc algebra_simps)
qed

lemma int_from_bytes_big_range:
  "0 \<le> int_from_bytes_big b \<and> int_from_bytes_big b < 256 ^ length b"
proof (induction b rule: rev_induct)
  case Nil
  show ?case by (simp add: int_from_bytes_big_def)
next
  case (snoc x xs)
  have x: "0 \<le> uint x" "uint x < 256" using uint_lt2p [of x] by simp_all
  from snoc have "int_from_bytes_big xs + 1 \<le> 256 ^ length xs" by simp
  then have "(int_from_bytes_big xs + 1) * 256 \<le> 256 ^ length xs * 256"
    by (rule mult_right_mono) simp
  with snoc x show ?case by (simp add: int_from_bytes_big_snoc algebra_simps)
qed

text \<open>Serialising after the fact: the bytes of a value that fits.\<close>

lemma to_bytes_shift:
  "map (\<lambda>k. word_of_int (drop_bit (8 * (Suc n - 1 - k)) v) :: byte) [0..<Suc n]
     = word_of_int (drop_bit (8 * n) v) # map (\<lambda>k. word_of_int (drop_bit (8 * (n - 1 - k)) v)) [0..<n]"
proof -
  have "[0..<Suc n] = 0 # map Suc [0..<n]"
    by (simp add: upt_conv_Cons map_Suc_upt del: upt_Suc)
  then show ?thesis by (simp add: comp_def del: upt_Suc)
qed

lemma from_bytes_of_to_bytes:
  "int_from_bytes_big (map (\<lambda>k. word_of_int (drop_bit (8 * (n - 1 - k)) v) :: byte) [0..<n])
     = take_bit (8 * n) v"
proof (induction n)
  case 0
  show ?case by (simp add: int_from_bytes_big_def)
next
  case (Suc n)
  have "uint (word_of_int (drop_bit (8 * n) v) :: byte) = take_bit 8 (drop_bit (8 * n) v)"
    by (simp add: uint_word_of_int_eq)
  moreover have "take_bit 8 (drop_bit (8 * n) v) * 256 ^ n + take_bit (8 * n) v
                   = take_bit (8 * Suc n) v"
  proof -
    have p: "(2::int) ^ (8 * n) = 256 ^ n"
      using power_mult [of "2::int" 8 n] by simp
    have q: "(2::int) ^ (8 * Suc n) = 256 ^ n * 256"
      using power_mult [of "2::int" 8 "Suc n"] by simp
    have whole: "take_bit (8 * Suc n) v = v mod (256 ^ n * 256)"
      by (simp only: take_bit_eq_mod q)
    have split: "v mod (256 ^ n * 256) = 256 ^ n * (v div 256 ^ n mod 256) + v mod 256 ^ n"
      by (rule zmod_zmult2_eq) simp
    have high: "take_bit 8 (drop_bit (8 * n) v) = v div 256 ^ n mod 256"
      by (simp only: take_bit_eq_mod drop_bit_eq_div p) simp
    have low: "take_bit (8 * n) v = v mod 256 ^ n"
      by (simp only: take_bit_eq_mod p)
    show ?thesis
      unfolding whole split high low by (simp only: mult.commute)
  qed
  ultimately show ?case
    by (simp only: to_bytes_shift int_from_bytes_big_Cons Suc.IH length_map length_upt diff_zero)
qed

lemma int_to_bytes_big_ok:
  assumes "0 \<le> v" "v < 256 ^ n"
  shows "\<exists>bs. int_to_bytes_big v n = Inr bs \<and> length bs = n \<and> int_from_bytes_big bs = v"
proof -
  have "(256::int) ^ n = 2 ^ (8 * n)" by (simp add: power_mult)
  with assms have "take_bit (8 * n) v = v" by (simp add: take_bit_int_eq_self)
  then have "int_from_bytes_big
               (map (\<lambda>k. word_of_int (drop_bit (8 * (n - 1 - k)) v) :: byte) [0..<n]) = v"
    by (simp only: from_bytes_of_to_bytes)
  moreover have "\<not> (v < 0 \<or> 256 ^ n \<le> v)" using assms by simp
  ultimately show ?thesis
    by (simp only: int_to_bytes_big_def if_False sum.inject length_map length_upt diff_zero
        simp_thms ex_simps)
qed

lemma int_to_bytes_big_overflow: "256 ^ n \<le> v \<Longrightarrow> int_to_bytes_big v n = Inl OverflowError"
  by (simp add: int_to_bytes_big_def)

lemma encode_line_padded_ok:
  assumes "rmargin tape = Some r" "0 \<le> r" "int_from_bytes_big line * 2 ^ nat r < 2 ^ 128"
  shows "\<exists>padded. encode_line_padded line tape = Inr padded \<and> length padded = 16 \<and>
           int_from_bytes_big padded = int_from_bytes_big line * 2 ^ nat r"
proof -
  let ?v = "int_from_bytes_big line * 2 ^ nat r"
  have "0 \<le> ?v" using int_from_bytes_big_range [of line] by simp
  moreover have "?v < 256 ^ 16" using assms(3) by simp
  ultimately obtain bs where "int_to_bytes_big ?v 16 = Inr bs" "length bs = 16"
      "int_from_bytes_big bs = ?v"
    using int_to_bytes_big_ok [of ?v 16] by blast
  with assms(1,2) show ?thesis
    by (simp add: encode_line_padded_def int_lshift_def push_bit_eq_mult)
qed

lemma encode_line_padded_overflow:
  assumes "rmargin tape = Some r" "0 \<le> r" "2 ^ 128 \<le> int_from_bytes_big line * 2 ^ nat r"
  shows "encode_line_padded line tape = Inl OverflowError"
proof -
  have "256 ^ 16 \<le> int_from_bytes_big line * 2 ^ nat r" using assms(3) by simp
  then have "int_to_bytes_big (int_from_bytes_big line * 2 ^ nat r) 16 = Inl OverflowError"
    by (rule int_to_bytes_big_overflow)
  with assms(1,2) show ?thesis
    by (simp add: encode_line_padded_def int_lshift_def push_bit_eq_mult)
qed

lemma encode_line_padded_Inr:
  assumes "encode_line_padded line tape = Inr padded"
  shows "\<exists>r. rmargin tape = Some r \<and> 0 \<le> r \<and> int_from_bytes_big line * 2 ^ nat r < 2 ^ 128 \<and>
           length padded = 16 \<and> int_from_bytes_big padded = int_from_bytes_big line * 2 ^ nat r"
proof (cases "rmargin tape")
  case None
  with assms show ?thesis by (simp add: encode_line_padded_def int_lshift_def)
next
  case (Some r)
  show ?thesis
  proof (cases "0 \<le> r")
    case False
    with Some assms show ?thesis by (simp add: encode_line_padded_def int_lshift_def)
  next
    case True
    show ?thesis
    proof (cases "int_from_bytes_big line * 2 ^ nat r < 2 ^ 128")
      case False
      then have "2 ^ 128 \<le> int_from_bytes_big line * 2 ^ nat r" by simp
      from encode_line_padded_overflow [OF Some True this] assms show ?thesis by simp
    next
      case fits: True
      from encode_line_padded_ok [OF Some True fits] assms Some True fits
      show ?thesis by auto
    qed
  qed
qed

lemma struct_pack_H_ok: "n < 65536 \<Longrightarrow> struct_pack_H n = Inr (little_endian_prefix n)"
  by (simp add: struct_pack_H_def little_endian_prefix_def)

lemma encode_line_of_padded:
  assumes "encode_line_padded line tape = Inr padded"
  shows "encode_line line tape
           = Inr (little_endian_prefix (length (packbits_encode padded)) @ packbits_encode padded)"
proof -
  from encode_line_padded_Inr [OF assms] have "length padded = 16" by blast
  with packbits_encode_length [of padded] have "length (packbits_encode padded) < 65536" by simp
  then have "struct_pack_H (length (packbits_encode padded))
               = Inr (little_endian_prefix (length (packbits_encode padded)))"
    by (rule struct_pack_H_ok)
  with assms show ?thesis by (simp add: encode_line_def Let_def)
qed

lemma encode_line_error:
  "encode_line_padded line tape = Inl e \<Longrightarrow> encode_line line tape = Inl e"
  by (simp add: encode_line_def)

lemma encode_line_Inr:
  assumes "encode_line line tape = Inr out"
  shows "\<exists>padded. encode_line_padded line tape = Inr padded \<and>
           out = little_endian_prefix (length (packbits_encode padded)) @ packbits_encode padded"
proof (cases "encode_line_padded line tape")
  case (Inl e)
  with assms encode_line_error [OF Inl] show ?thesis by simp
next
  case (Inr padded)
  with assms encode_line_of_padded [OF Inr] show ?thesis by simp
qed

lemma from_bytes_all_ones: "int_from_bytes_big (replicate n 0xFF) = 2 ^ (8 * n) - 1"
proof (induction n)
  case 0
  show ?case by (simp add: int_from_bytes_big_def)
next
  case (Suc n)
  have p: "(2::int) ^ (8 * n) = 256 ^ n" using power_mult [of "2::int" 8 n] by simp
  have q: "(2::int) ^ (8 * Suc n) = 256 * 256 ^ n" using power_mult [of "2::int" 8 "Suc n"] by simp
  have "int_from_bytes_big (replicate (Suc n) 0xFF) = 255 * 256 ^ n + (256 ^ n - 1)"
    using Suc by (simp add: int_from_bytes_big_Cons p)
  also have "\<dots> = 2 ^ (8 * Suc n) - 1" unfolding q by simp
  finally show ?case .
qed

lemma shifted_ones_bits:
  "bit (((2::int) ^ m - 1) * 2 ^ r) i \<longleftrightarrow> r \<le> i \<and> i < r + m"
proof -
  have "((2::int) ^ m - 1) * 2 ^ r = push_bit r (mask m)"
    by (simp add: push_bit_eq_mult mask_eq_exp_minus_1)
  then show ?thesis by (auto simp: bit_push_bit_iff bit_mask_iff)
qed

lemma tape_18mm_rmargin: "rmargin tape_18mm = Some 8"
  by (simp add: tape_18mm_def mk_TapeInfo_def)

lemma tape_24mm_rmargin: "rmargin tape_24mm = Some 0"
  by (simp add: tape_24mm_def mk_TapeInfo_def)

lemma example_line_padded:
  "encode_line_padded [0xFF, 0, 0xFF] tape_18mm
     = Inr [0, 0, 0, 0, 0, 0, 0, 0, 0, 0, 0, 0, 0xFF, 0, 0xFF, 0]"
  by (simp add: encode_line_padded_def tape_18mm_def mk_TapeInfo_def int_lshift_def
      int_from_bytes_big_def int_to_bytes_big_def upt_rec drop_bit_eq_div)

lemma example_line_compressed:
  "packbits_encode [0, 0, 0, 0, 0, 0, 0, 0, 0, 0, 0, 0, 0xFF, 0, 0xFF, 0]
     = [245, 0, 3, 255, 0, 255, 0]"
  by (simp add: Let_def)

lemma example_line_encoded:
  "encode_line [0xFF, 0, 0xFF] tape_18mm = Inr [7, 0, 245, 0, 3, 255, 0, 255, 0]"
  by (simp add: encode_line_of_padded [OF example_line_padded] example_line_compressed
      little_endian_prefix_def)

text \<open>
  Claim C1, amended. For every bitmap line and every tape info whose right margin is
  an integer \<open>r \<ge> 0\<close> such that the line's big-endian value shifted left by \<open>r\<close>
  bits is below \<open>2 ^ 128\<close>, \<open>encode_line\<close> returns the two-byte little-endian
  length of the compressed payload followed by the payload, where the payload is the
  run-length compression of the 16-byte buffer whose big-endian value is the shifted
  value (so it is zero-padded on the left).
\<close>

theorem encode_line_algorithm:
  assumes "rmargin tape = Some r" and "0 \<le> r"
    and "big_endian_value line * 2 ^ nat r < 2 ^ 128"
  shows "\<exists>padded. length padded = 16 \<and>
           big_endian_value padded = big_endian_value line * 2 ^ nat r \<and>
           length (packbits_encode padded) < 2 ^ 16 \<and>
           encode_line line tape
             = Inr (little_endian_prefix (length (packbits_encode padded))
                    @ packbits_encode padded)"
proof -
  from assms(3) have "int_from_bytes_big line * 2 ^ nat r < 2 ^ 128"
    by (simp only: int_from_bytes_big_eq)
  from encode_line_padded_ok [OF assms(1,2) this]
  obtain padded where p: "encode_line_padded line tape = Inr padded" "length padded = 16"
      "int_from_bytes_big padded = int_from_bytes_big line * 2 ^ nat r"
    by blast
  from p(2) packbits_encode_length [of padded]
  have "length (packbits_encode padded) < 2 ^ 16" by simp
  with p(2,3) encode_line_of_padded [OF p(1)] show ?thesis
    by (auto simp only: int_from_bytes_big_eq)
qed

theorem encode_line_algorithm_witness:
  "big_endian_value [0xFF, 0, 0xFF] * 2 ^ nat 8 < 2 ^ 128 \<and>
   (\<exists>padded. length padded = 16 \<and> big_endian_value padded = 0xFF00FF00 \<and>
      length (packbits_encode padded) < 2 ^ 16 \<and>
      encode_line [0xFF, 0, 0xFF] tape_18mm
        = Inr (little_endian_prefix (length (packbits_encode padded)) @ packbits_encode padded))"
proof -
  have v: "big_endian_value [0xFF, 0, 0xFF] = 0xFF00FF"
    by (simp add: int_from_bytes_big_eq [symmetric] int_from_bytes_big_def)
  then have fits: "big_endian_value [0xFF, 0, 0xFF] * 2 ^ nat 8 < 2 ^ 128" by simp
  from encode_line_algorithm [OF tape_18mm_rmargin _ fits] v fits show ?thesis by simp
qed

text \<open>
  The claim as stated, for every line and every integer margin, fails on a line of
  16 bytes \<open>0xFF\<close> with the 18 mm tape: nothing is returned.
\<close>

theorem encode_line_overflow_counterexample:
  "encode_line (replicate 16 0xFF) tape_18mm = Inl OverflowError"
proof -
  have "2 ^ 128 \<le> int_from_bytes_big (replicate 16 0xFF) * 2 ^ nat 8"
    by (simp add: from_bytes_all_ones)
  from encode_line_padded_overflow [OF tape_18mm_rmargin _ this] show ?thesis
    by (simp add: encode_line_error)
qed

text \<open>
  Claim C7, amended. For a tape info with right margin \<open>r \<ge> 0\<close> and a line of \<open>n\<close>
  bytes of all-1 bits with \<open>8 n + r \<le> 128\<close>, the padded 16-byte buffer is the
  line's value shifted left by \<open>r\<close>: its lowest \<open>r\<close> bits are clear, the \<open>8 n\<close> bits
  above them are set, and every bit above those is clear.
\<close>

theorem all_ones_line_padded:
  assumes "rmargin tape = Some r" and "0 \<le> r" and "8 * n + nat r \<le> 128"
  shows "\<exists>padded. encode_line_padded (replicate n 0xFF) tape = Inr padded \<and>
           length padded = 16 \<and>
           big_endian_value padded = push_bit (nat r) (2 ^ (8 * n) - 1) \<and>
           (\<forall>i. bit (big_endian_value padded) i \<longleftrightarrow> nat r \<le> i \<and> i < nat r + 8 * n)"
proof -
  let ?v = "((2::int) ^ (8 * n) - 1) * 2 ^ nat r"
  have "?v < 2 ^ (8 * n) * 2 ^ nat r" by simp
  also have "\<dots> = 2 ^ (8 * n + nat r)" by (simp add: power_add)
  also have "\<dots> \<le> 2 ^ 128" using assms(3) by (intro power_increasing) simp_all
  finally have "int_from_bytes_big (replicate n 0xFF) * 2 ^ nat r < 2 ^ 128"
    by (simp only: from_bytes_all_ones)
  from encode_line_padded_ok [OF assms(1,2) this]
  obtain padded where p: "encode_line_padded (replicate n 0xFF) tape = Inr padded"
      "length padded = 16" "big_endian_value padded = ?v"
    by (auto simp only: int_from_bytes_big_eq [symmetric] from_bytes_all_ones)
  have "\<forall>i. bit (big_endian_value padded) i \<longleftrightarrow> nat r \<le> i \<and> i < nat r + 8 * n"
    by (simp only: p(3) shifted_ones_bits) simp
  with p show ?thesis by (auto simp: push_bit_eq_mult)
qed

theorem all_ones_line_padded_witness:
  "\<exists>padded. encode_line_padded (replicate 14 0xFF) tape_18mm = Inr padded \<and>
     length padded = 16 \<and> \<not> bit (big_endian_value padded) 7 \<and>
     bit (big_endian_value padded) 8 \<and> bit (big_endian_value padded) 119 \<and>
     \<not> bit (big_endian_value padded) 120"
  using all_ones_line_padded [OF tape_18mm_rmargin, of 14] by auto

text \<open>
  The claim as stated asks for all bits from \<open>r\<close> upwards to be set. On the 18 mm
  tape (\<open>r = 8\<close>, 14 bytes per line) the top byte of the buffer is the left margin
  and stays clear.
\<close>

theorem all_ones_line_high_bits_counterexample:
  "encode_line_padded [0xFF, 0xFF, 0xFF, 0xFF, 0xFF, 0xFF, 0xFF, 0xFF, 0xFF, 0xFF, 0xFF, 0xFF, 0xFF, 0xFF] tape_18mm
     = Inr [0, 0xFF, 0xFF, 0xFF, 0xFF, 0xFF, 0xFF, 0xFF, 0xFF, 0xFF, 0xFF, 0xFF, 0xFF, 0xFF, 0xFF, 0] \<and>
   \<not> bit (big_endian_value [0, 0xFF, 0xFF, 0xFF, 0xFF, 0xFF, 0xFF, 0xFF, 0xFF, 0xFF, 0xFF, 0xFF, 0xFF, 0xFF, 0xFF, 0]) 127"
proof -
  have "encode_line_padded [0xFF, 0xFF, 0xFF, 0xFF, 0xFF, 0xFF, 0xFF, 0xFF, 0xFF, 0xFF, 0xFF, 0xFF, 0xFF, 0xFF] tape_18mm
          = Inr [0, 0xFF, 0xFF, 0xFF, 0xFF, 0xFF, 0xFF, 0xFF, 0xFF, 0xFF, 0xFF, 0xFF, 0xFF, 0xFF, 0xFF, 0]"
    by (simp add: encode_line_padded_def tape_18mm_def mk_TapeInfo_def int_lshift_def
        int_from_bytes_big_def int_to_bytes_big_def upt_rec drop_bit_eq_div)
  moreover have "big_endian_value [0, 0xFF, 0xFF, 0xFF, 0xFF, 0xFF, 0xFF, 0xFF, 0xFF, 0xFF, 0xFF, 0xFF, 0xFF, 0xFF, 0xFF, 0]
                   = (2 ^ 112 - 1) * 2 ^ 8"
    by (simp add: int_from_bytes_big_eq [symmetric] int_from_bytes_big_def)
  moreover have "\<not> bit (((2::int) ^ 112 - 1) * 2 ^ 8) 127"
    by (simp only: shifted_ones_bits) simp
  ultimately show ?thesis by (simp only: simp_thms)
qed

text \<open>
  Claim C10. When the line's big-endian value shifted left by the right margin
  \<open>r \<ge> 0\<close> does not fit in 16 bytes, \<open>encode_line\<close> raises
  \<^verbatim>\<open>OverflowError\<close>; and whatever \<open>encode_line\<close> returns, the payload after the
  two-byte prefix decompresses to the 16-byte buffer holding exactly the shifted
  value, so no high bit is ever dropped.
\<close>

theorem encode_line_overflow_raises:
  "(rmargin tape = Some r \<and> 0 \<le> r \<and> 2 ^ 128 \<le> big_endian_value line * 2 ^ nat r
      \<longrightarrow> encode_line line tape = Inl OverflowError)
   \<and> (encode_line line tape = Inr out
      \<longrightarrow> (\<exists>r' padded. rmargin tape = Some r' \<and> 0 \<le> r' \<and>
             big_endian_value line * 2 ^ nat r' < 2 ^ 128 \<and>
             out = little_endian_prefix (length (packbits_encode padded))
                     @ packbits_encode padded \<and>
             packbits_decode (drop 2 out) = Inr padded \<and> length padded = 16 \<and>
             big_endian_value padded = big_endian_value line * 2 ^ nat r'))"
proof (intro conjI impI)
  assume "rmargin tape = Some r \<and> 0 \<le> r \<and> 2 ^ 128 \<le> big_endian_value line * 2 ^ nat r"
  then have "rmargin tape = Some r" "0 \<le> r"
      "2 ^ 128 \<le> int_from_bytes_big line * 2 ^ nat r"
    by (simp_all only: int_from_bytes_big_eq)
  then have "encode_line_padded line tape = Inl OverflowError"
    by (rule encode_line_padded_overflow)
  then show "encode_line line tape = Inl OverflowError" by (rule encode_line_error)
next
  assume "encode_line line tape = Inr out"
  from encode_line_Inr [OF this] obtain padded
    where p: "encode_line_padded line tape = Inr padded"
      and out: "out = little_endian_prefix (length (packbits_encode padded))
                        @ packbits_encode padded"
    by blast
  from out have "drop 2 out = packbits_encode padded"
    by (simp add: little_endian_prefix_def)
  then have "packbits_decode (drop 2 out) = Inr padded"
    by (simp only: packbits_roundtrip)
  with encode_line_padded_Inr [OF p] out
  show "\<exists>r' padded. rmargin tape = Some r' \<and> 0 \<le> r' \<and>
          big_endian_value line * 2 ^ nat r' < 2 ^ 128 \<and>
          out = little_endian_prefix (length (packbits_encode padded))
                  @ packbits_encode padded \<and>
          packbits_decode (drop 2 out) = Inr padded \<and> length padded = 16 \<and>
          big_endian_value padded = big_endian_value line * 2 ^ nat r'"
    by (auto simp only: int_from_bytes_big_eq)
qed

theorem encode_line_overflow_raises_witness:
  "encode_line (1 # replicate 16 0) tape_24mm = Inl OverflowError \<and>
   encode_line [0xFF, 0, 0xFF] tape_18mm = Inr [7, 0, 245, 0, 3, 255, 0, 255, 0] \<and>
   (\<exists>padded. packbits_decode (drop 2 [7, 0, 245, 0, 3, 255, 0, 255, 0]) = Inr padded \<and>
      length padded = 16 \<and> big_endian_value padded = 0xFF00FF00)"
proof -
  have v: "big_endian_value (1 # replicate 16 0) = 2 ^ 128"
    by (simp add: int_from_bytes_big_eq [symmetric] int_from_bytes_big_Cons
        int_from_bytes_big_def eval_nat_numeral)
  have w: "big_endian_value [0xFF, 0, 0xFF] = 0xFF00FF"
    by (simp add: int_from_bytes_big_eq [symmetric] int_from_bytes_big_def)
  from encode_line_overflow_raises [of tape_24mm 0 "1 # replicate 16 0"] v
  have a: "encode_line (1 # replicate 16 0) tape_24mm = Inl OverflowError"
    by (simp add: tape_24mm_rmargin)
  from encode_line_overflow_raises
         [of tape_18mm _ "[0xFF, 0, 0xFF]" "[7, 0, 245, 0, 3, 255, 0, 255, 0]"]
       example_line_encoded
  have "\<exists>r' padded. rmargin tape_18mm = Some r' \<and> 0 \<le> r' \<and>
          big_endian_value [0xFF, 0, 0xFF] * 2 ^ nat r' < 2 ^ 128 \<and>
          packbits_decode (drop 2 [7, 0, 245, 0, 3, 255, 0, 255, 0]) = Inr padded \<and>
          length padded = 16 \<and>
          big_endian_value padded = big_endian_value [0xFF, 0, 0xFF] * 2 ^ nat r'"
    by blast
  then have "\<exists>padded. packbits_decode (drop 2 [7, 0, 245, 0, 3, 255, 0, 255, 0]) = Inr padded \<and>
      length padded = 16 \<and> big_endian_value padded = 0xFF00FF00"
    by (auto simp: tape_18mm_rmargin w)
  with a example_line_encoded show ?thesis by simp
qed

section \<open>Printer session\<close>

lemma in_sequence_append:
  "in_sequence (as @ bs) w =
     (case in_sequence as w of
        (w', Inl e) \<Rightarrow> (w', Inl e)
      | (w', Inr _) \<Rightarrow> in_sequence bs w')"
  by (induction as arbitrary: w) (auto split: prod.splits sum.splits)



































lemma status_18mm_decoded: "Status_init status_reply_18mm = Inr status_18mm"
  by (simp add: Status_init_eq status_18mm_def status_reply_18mm_def status_reply_24mm_def
      MEDIA_WIDTH_INFO_def tape_18mm_def)

















subsection \<open>Status request\<close>

lemma reset_eq:
  "P700_reset w = (w\<lparr>written := written w @ [replicate 100 0x00, [0x1B, 0x40]]\<rparr>, Inr ())"
  by (simp add: P700_reset_def backend_write_def)

lemma get_status_eq:
  "P700_get_status w =
     (let w1 = w\<lparr>written := written w
                   @ [replicate 100 0x00, [0x1B, 0x40], [0x1B, 0x69, 0x53]]\<rparr>
      in case incoming w of
           [] \<Rightarrow> (w1, Inl (IOError ''No Response from printer''))
         | msg # rs \<Rightarrow>
             if msg = [] then (w1\<lparr>incoming := rs\<rparr>, Inl (IOError ''No Response from printer''))
             else if length msg < 32
             then (w1\<lparr>incoming := rs\<rparr>, Inl (IOError ''Invalid Response from printer''))
             else (w1\<lparr>incoming := rs\<rparr>, Status_init msg))"
  by (simp add: P700_get_status_def reset_eq backend_write_def backend_read_def Let_def
      split: list.splits)

lemma get_status_written:
  "P700_get_status w = (w', r) \<Longrightarrow>
   written w' = written w @ [replicate 100 0x00, [0x1B, 0x40], [0x1B, 0x69, 0x53]] \<and>
   rendered w' = rendered w"
  by (auto simp: get_status_eq Let_def split: list.splits if_splits)

text \<open>A reply of fewer than 32 bytes, or none, is an I/O error.\<close>

lemma get_status_short_reply:
  assumes "incoming w = [] \<or> length (hd (incoming w)) < 32"
  shows "\<exists>w' text. P700_get_status w = (w', Inl (IOError text))"
  using assms by (auto simp: get_status_eq Let_def split: list.splits)

text \<open>A status is only ever built from a reply of at least 32 bytes.\<close>

lemma get_status_Inr:
  assumes "P700_get_status w = (w', Inr st)"
  shows "\<exists>msg rs. incoming w = msg # rs \<and> 32 \<le> length msg \<and> Status_init msg = Inr st"
  using assms by (auto simp: get_status_eq Let_def split: list.splits if_splits)

text \<open>A reply of at least 32 bytes with a media width of the table decodes.\<close>

lemma get_status_known_media:
  assumes "incoming w = msg # rs" and "32 \<le> length msg"
    and "map_of MEDIA_WIDTH_INFO (uint (msg ! 10)) = Some t"
  shows "\<exists>w' st. P700_get_status w = (w', Inr st) \<and> tape_info st = t"
  using assms by (auto simp: get_status_eq Let_def Status_init_eq)

text \<open>
  Claim C9. The claim asks that every reply of at least 32 bytes yields a decoded
  status. On a 32-byte reply whose media width code is 99, \<open>get_status\<close> raises
  \<^verbatim>\<open>KeyError\<close> from the decoder instead. (Short and empty replies do raise an
  I/O error, and a status is only built from 32 bytes or more: see
  \<open>get_status_short_reply\<close> and \<open>get_status_Inr\<close>.)
\<close>

theorem get_status_unknown_media_code:
  "length status_reply_unknown_media = 32 \<and>
   P700_get_status \<lparr>written = [], incoming = [status_reply_unknown_media], rendered = []\<rparr>
     = (\<lparr>written = [replicate 100 0x00, [0x1B, 0x40], [0x1B, 0x69, 0x53]], incoming = [],
         rendered = []\<rparr>, Inl KeyError)"
  by (simp add: get_status_eq Let_def Status_init_eq MEDIA_WIDTH_INFO_def
      status_reply_unknown_media_def status_reply_24mm_def)

text \<open>
  Claim C8. If the status that \<open>print_label\<close> obtains is not ready, the job fails
  with the error "Printer is not ready"; the label has not been rendered, and the only
  writes are those of the status request itself (invalidate, initialise, status
  request): no command of the print sequence and no raster line has been written.
\<close>

theorem print_label_not_ready:
  assumes "P700_get_status w = (w1, Inr status)" and "\<not> ready status"
  shows "P700_print_label label w = (w1, Inl (IOError ''Printer is not ready'')) \<and>
         rendered w1 = rendered w \<and>
         written w1 = written w @ [replicate 100 0x00, [0x1B, 0x40], [0x1B, 0x69, 0x53]]"
  using assms get_status_written [OF assms(1)] by (simp add: P700_print_label_def)

theorem print_label_not_ready_witness:
  "\<exists>w1. P700_print_label blank_label no_media_world
           = (w1, Inl (IOError ''Printer is not ready'')) \<and>
        rendered w1 = [] \<and>
        written w1 = [replicate 100 0x00, [0x1B, 0x40], [0x1B, 0x69, 0x53]]"
proof -
  obtain st where st: "Status_init status_reply_no_media = Inr st"
    by (simp add: Status_init_eq status_reply_no_media_def status_reply_24mm_def
        MEDIA_WIDTH_INFO_def)
  from Status_init_errors [OF st] have "errors st = Errors_init 1 0"
    by (simp add: status_reply_no_media_def status_reply_24mm_def)
  then have "st = st\<lparr>errors := Errors_init 1 0\<rparr>" by (cases st) simp
  with ready_no_media [where st = st and ?b2.0 = 0] have nr: "\<not> ready st" by simp
  obtain w1 where gs: "P700_get_status no_media_world = (w1, Inr st)"
    using st by (simp add: get_status_eq Let_def no_media_world_def status_reply_no_media_def
        status_reply_24mm_def)
  from print_label_not_ready [OF gs nr, of blank_label] show ?thesis
    by (auto simp: no_media_world_def)
qed

end
